theory Spec2Isabelle
  imports Main "HOL-Library.Sublist" "HOL-Library.Log_Nat"
begin

section \<open>The calculator of calculator.py\<close>

text \<open>
  The program reads a line, tokenises it with one regular expression, parses the tokens by
  recursive descent into nested tuples, evaluates the tree with Python floats against a
  symbol table and, for a line with an \<open>=\<close>, stores the value. This theory embeds
  \<open>Tokenizer.tokenize\<close>, the \<open>Parser\<close> class, \<open>SymbolTable.get\<close>/\<open>set\<close>,
  \<open>evaluate\<close> and \<open>process_expression\<close>.

  Conventions of the embedding.
  \<^item> A Python \<open>str\<close> is a \<open>string\<close>; a character is read as the code point of the same
    number (0 to 255), and the character classes \<open>\d\<close>, \<open>\w\<close> and the white space of
    \<open>str.strip\<close> are the ones Python has on these code points.
  \<^item> A raised exception is the value \<open>Raises e\<close>; a function that mutates \<open>self\<close>
    returns the object next to its result.
  \<^item> The files the program writes (\<open>tokens.txt\<close>, \<open>parse_tree.txt\<close>, \<open>error.txt\<close>,
    the symbol table's file) are not part of the model: writing them is assumed to succeed
    and nothing reads them back within a run.
\<close>

subsection \<open>Tokens and the tokenizer\<close>

datatype kind = NUMBER | OPERATOR | PAREN | IDENTIFIER | ASSIGN

type_synonym token = "kind \<times> string"

definition is_digit :: "char \<Rightarrow> bool" where
  "is_digit c = (c \<in> set ''0123456789'')"

definition is_letter :: "char \<Rightarrow> bool" where
  "is_letter c = (c \<in> set ''abcdefghijklmnopqrstuvwxyzABCDEFGHIJKLMNOPQRSTUVWXYZ'')"

text \<open>
  \<open>\w\<close> on a \<open>str\<close> pattern is "alphanumeric or underscore" in Unicode's sense. Below
  256 that adds, to the ASCII letters and digits, the letters
  \<open>0xAA 0xB5 0xBA 0xC0-0xD6 0xD8-0xF6 0xF8-0xFF\<close> and the numeric characters
  \<open>0xB2 0xB3 0xB9 0xBC 0xBD 0xBE\<close>; \<open>\d\<close> stays \<open>0-9\<close>.
\<close>

definition is_word :: "char \<Rightarrow> bool" where
  "is_word c =
     (is_letter c \<or> is_digit c \<or> c = CHR ''_'' \<or>
      (let n = (of_char c :: nat)
       in n \<in> {170, 178, 179, 181, 185, 186, 188, 189, 190} \<or>
          (192 \<le> n \<and> n \<noteq> 215 \<and> n \<noteq> 247)))"

text \<open>
  One function per alternative of \<open>token_regex\<close>: the text the pattern matches at the
  start of the input, and the input after it. \<open>\d+\<close> and \<open>\w*\<close> are greedy; the group
  \<open>(\.\d+)?\<close> is taken when a dot and a digit follow, and given up otherwise.
\<close>

definition match_NUMBER :: "string \<Rightarrow> (string \<times> string) option" where
  "match_NUMBER s =
     (case s of
        [] \<Rightarrow> None
      | c # cs \<Rightarrow>
          if is_digit c then
            (let whole = takeWhile is_digit s; rest = dropWhile is_digit s
             in case rest of
                  d # f # fs \<Rightarrow>
                    if d = CHR ''.'' \<and> is_digit f
                    then Some (whole @ [d] @ takeWhile is_digit (f # fs),
                               dropWhile is_digit (f # fs))
                    else Some (whole, rest)
                | _ \<Rightarrow> Some (whole, rest))
          else None)"

definition match_OPERATOR :: "string \<Rightarrow> (string \<times> string) option" where
  "match_OPERATOR s =
     (case s of [] \<Rightarrow> None | c # cs \<Rightarrow> if c \<in> set ''+-*/'' then Some ([c], cs) else None)"

definition match_PAREN :: "string \<Rightarrow> (string \<times> string) option" where
  "match_PAREN s =
     (case s of [] \<Rightarrow> None | c # cs \<Rightarrow> if c \<in> set ''()'' then Some ([c], cs) else None)"

definition match_IDENTIFIER :: "string \<Rightarrow> (string \<times> string) option" where
  "match_IDENTIFIER s =
     (case s of
        [] \<Rightarrow> None
      | c # cs \<Rightarrow>
          if is_letter c then Some (c # takeWhile is_word cs, dropWhile is_word cs)
          else None)"

definition match_ASSIGN :: "string \<Rightarrow> (string \<times> string) option" where
  "match_ASSIGN s =
     (case s of [] \<Rightarrow> None | c # cs \<Rightarrow> if c = CHR ''='' then Some ([c], cs) else None)"

text \<open>The alternation tries the named groups in the order of \<open>token_patterns\<close>.\<close>

definition token_patterns :: "(kind \<times> (string \<Rightarrow> (string \<times> string) option)) list" where
  "token_patterns =
     [(NUMBER, match_NUMBER), (OPERATOR, match_OPERATOR), (PAREN, match_PAREN),
      (IDENTIFIER, match_IDENTIFIER), (ASSIGN, match_ASSIGN)]"

fun first_match ::
  "(kind \<times> (string \<Rightarrow> (string \<times> string) option)) list \<Rightarrow> string \<Rightarrow>
     (token \<times> string) option" where
  "first_match [] s = None"
| "first_match ((name, pattern) # ps) s =
     (case pattern s of
        Some (text, rest) \<Rightarrow> Some ((name, text), rest)
      | None \<Rightarrow> first_match ps s)"

definition token_regex :: "string \<Rightarrow> (token \<times> string) option" where
  "token_regex s = first_match token_patterns s"

lemma match_NUMBER_append:
  assumes "match_NUMBER s = Some (lexeme, rest)"
  shows "s = lexeme @ rest \<and> lexeme \<noteq> []"
proof (cases s)
  case Nil
  with assms show ?thesis by (simp add: match_NUMBER_def)
next
  case (Cons c cs)
  show ?thesis
  proof (cases "is_digit c")
    case False
    with assms Cons show ?thesis by (simp add: match_NUMBER_def)
  next
    case True
    have whole: "takeWhile is_digit s \<noteq> []"
      using True Cons by simp
    have split: "s = takeWhile is_digit s @ dropWhile is_digit s"
      by simp
    show ?thesis
    proof (cases "\<exists>f fs. dropWhile is_digit s = CHR ''.'' # f # fs \<and> is_digit f")
      case True
      then obtain f fs where r: "dropWhile is_digit s = CHR ''.'' # f # fs" and f: "is_digit f"
        by blast
      from assms Cons \<open>is_digit c\<close> r f
      have "lexeme = takeWhile is_digit s @ [CHR ''.''] @ takeWhile is_digit (f # fs)"
        and "rest = dropWhile is_digit (f # fs)"
        by (simp_all add: match_NUMBER_def Let_def)
      moreover have "f # fs = takeWhile is_digit (f # fs) @ dropWhile is_digit (f # fs)"
        by (simp only: takeWhile_dropWhile_id)
      ultimately have "lexeme @ rest = takeWhile is_digit s @ CHR ''.'' # f # fs"
        by (metis append.assoc append_Cons append_Nil)
      with split r whole \<open>lexeme = _\<close> show ?thesis by simp
    next
      case False
      with assms Cons \<open>is_digit c\<close>
      have "lexeme = takeWhile is_digit s" and "rest = dropWhile is_digit s"
        by (auto simp: match_NUMBER_def Let_def split: list.splits if_splits)
      with split whole show ?thesis by simp
    qed
  qed
qed

lemma match_OPERATOR_append:
  "match_OPERATOR s = Some (lexeme, rest) \<Longrightarrow> s = lexeme @ rest \<and> lexeme \<noteq> []"
  by (auto simp: match_OPERATOR_def split: list.splits if_splits)

lemma match_PAREN_append:
  "match_PAREN s = Some (lexeme, rest) \<Longrightarrow> s = lexeme @ rest \<and> lexeme \<noteq> []"
  by (auto simp: match_PAREN_def split: list.splits if_splits)

lemma match_IDENTIFIER_append:
  "match_IDENTIFIER s = Some (lexeme, rest) \<Longrightarrow> s = lexeme @ rest \<and> lexeme \<noteq> []"
  by (auto simp: match_IDENTIFIER_def split: list.splits if_splits)

lemma match_ASSIGN_append:
  "match_ASSIGN s = Some (lexeme, rest) \<Longrightarrow> s = lexeme @ rest \<and> lexeme \<noteq> []"
  by (auto simp: match_ASSIGN_def split: list.splits if_splits)

lemma token_regex_append:
  assumes "token_regex s = Some ((k, lexeme), rest)"
  shows "s = lexeme @ rest \<and> lexeme \<noteq> []"
  using assms match_NUMBER_append [of s lexeme rest] match_OPERATOR_append [of s lexeme rest]
    match_PAREN_append [of s lexeme rest] match_IDENTIFIER_append [of s lexeme rest]
    match_ASSIGN_append [of s lexeme rest]
  by (auto simp: token_regex_def token_patterns_def split: option.splits)

lemma token_regex_shorter:
  assumes "token_regex s = Some (t, rest)"
  shows "length rest < length s"
proof -
  obtain k lexeme where "t = (k, lexeme)" by (cases t)
  with assms have "s = lexeme @ rest \<and> lexeme \<noteq> []"
    by (simp add: token_regex_append)
  then show ?thesis by (cases lexeme) auto
qed

text \<open>
  \<open>finditer\<close> looks for a match at the current position; a position where no alternative
  matches is passed over, and the search goes on after the end of each match.
\<close>

function tokenize :: "string \<Rightarrow> token list" where
  "tokenize [] = []"
| "tokenize (c # cs) =
     (case token_regex (c # cs) of
        None \<Rightarrow> tokenize cs
      | Some (token, rest) \<Rightarrow> token # tokenize rest)"
  by pat_completeness auto
termination
  by (relation "measure length") (auto dest: token_regex_shorter)

subsection \<open>Exceptions and results\<close>

text \<open>
  The exceptions the program can raise. A \<open>SyntaxError\<close> carries the message the parser
  gives it: the text \<open>Unmatched parenthesis\<close>, or \<open>Unexpected token:\<close> followed by the
  token (kept here as the token). A \<open>NameError\<close> carries its message text.
\<close>

datatype message = Unmatched_parenthesis | Unexpected_token token

datatype exn =
    SyntaxError message
  | NameError string
  | TypeError
  | ValueError
  | ZeroDivisionError

datatype 'a result = Returns 'a | Raises exn

subsection \<open>The parser\<close>

text \<open>
  A parse tree is a tuple \<open>('number', text)\<close>, \<open>('identifier', name)\<close> or
  \<open>('bin_op', op, left, right)\<close> (the constructors are capitalised here); \<open>parse_expression\<close> answers \<open>None\<close> after a syntax
  error, and that \<open>None\<close> can end up as a subtree.
\<close>

datatype node =
    Number string
  | Identifier string
  | Bin_op string node node
  | None_node

record parser =
  tokens :: "token list"
  pos :: nat
  error :: "message option"

definition Parser :: "token list \<Rightarrow> parser" where
  "Parser ts = \<lparr>tokens = ts, pos = 0, error = None\<rparr>"

definition peek :: "parser \<Rightarrow> token option" where
  "peek self = (if pos self < length (tokens self) then Some (tokens self ! pos self) else None)"

definition consume :: "parser \<Rightarrow> parser" where
  "consume self = self\<lparr>pos := pos self + 1\<rparr>"

text \<open>\<open>a in b\<close> on two strings: \<open>a\<close> occurs in \<open>b\<close> as a contiguous piece.\<close>

primrec str_in :: "string \<Rightarrow> string \<Rightarrow> bool" where
  "str_in a [] = (a = [])"
| "str_in a (c # b) = (prefix a (c # b) \<or> str_in a b)"

text \<open>
  The loop condition \<open>self.peek() and self.peek()[1] in ops\<close>: a token is a non-empty
  tuple, so it is true exactly when there is a token and its text occurs in \<open>ops\<close>.
\<close>

definition peek_in :: "parser \<Rightarrow> string \<Rightarrow> bool" where
  "peek_in self ops = (case peek self of None \<Rightarrow> False | Some token \<Rightarrow> str_in (snd token) ops)"

text \<open>The test \<open>self.peek() and self.peek()[1] == ')'\<close>.\<close>

definition peek_is :: "parser \<Rightarrow> string \<Rightarrow> bool" where
  "peek_is self s = (case peek self of None \<Rightarrow> False | Some token \<Rightarrow> snd token = s)"

function parse_expression :: "parser \<Rightarrow> node result \<times> parser"
  and expression_loop :: "node \<Rightarrow> parser \<Rightarrow> node result \<times> parser"
  and parse_term :: "parser \<Rightarrow> node result \<times> parser"
  and term_loop :: "node \<Rightarrow> parser \<Rightarrow> node result \<times> parser"
  and parse_factor :: "parser \<Rightarrow> node result \<times> parser"
where
  "parse_expression self =
     (case (case parse_term self of
              (Returns node, self1) \<Rightarrow> expression_loop node self1
            | (Raises e, self1) \<Rightarrow> (Raises e, self1)) of
        (Raises (SyntaxError se), self2) \<Rightarrow> (Returns None_node, self2\<lparr>error := Some se\<rparr>)
      | (r, self2) \<Rightarrow> (r, self2))"
| "expression_loop node self =
     (if peek_in self ''+-'' then
        (case parse_term (consume self) of
           (Returns right, self1) \<Rightarrow>
             expression_loop (Bin_op (snd (the (peek self))) node right) self1
         | (Raises e, self1) \<Rightarrow> (Raises e, self1))
      else (Returns node, self))"
| "parse_term self =
     (case parse_factor self of
        (Returns node, self1) \<Rightarrow> term_loop node self1
      | (Raises e, self1) \<Rightarrow> (Raises e, self1))"
| "term_loop node self =
     (if peek_in self ''*/'' then
        (case parse_factor (consume self) of
           (Returns right, self1) \<Rightarrow>
             term_loop (Bin_op (snd (the (peek self))) node right) self1
         | (Raises e, self1) \<Rightarrow> (Raises e, self1))
      else (Returns node, self))"
| "parse_factor self =
     (case peek self of
        None \<Rightarrow> (Raises TypeError, self)
      | Some token \<Rightarrow>
          if fst token = NUMBER then (Returns (Number (snd token)), consume self)
          else if fst token = IDENTIFIER then (Returns (Identifier (snd token)), consume self)
          else if snd token = ''('' then
            (case parse_expression (consume self) of
               (Returns expr, self1) \<Rightarrow>
                 if peek_is self1 '')''
                 then (Returns expr, consume self1)
                 else (Raises (SyntaxError Unmatched_parenthesis), self1)
             | (Raises e, self1) \<Rightarrow> (Raises e, self1))
          else (Raises (SyntaxError (Unexpected_token token)), self))"
  by pat_completeness auto

text \<open>
  Termination. Every call leaves the token list alone and never moves \<open>pos\<close>
  backwards; each loop iteration and each parenthesis consume one token first.
\<close>

definition advances :: "parser \<Rightarrow> 'a \<times> parser \<Rightarrow> bool" where
  "advances self r = (tokens (snd r) = tokens self \<and> pos self \<le> pos (snd r))"

lemma advances_consume:
  "advances (consume self) r \<Longrightarrow> advances self r"
  by (simp add: advances_def consume_def)

lemma parse_advances_dom:
  "parse_expression_expression_loop_parse_term_term_loop_parse_factor_dom (Inl (Inl self)) \<Longrightarrow>
     advances self (parse_expression self)"
  "parse_expression_expression_loop_parse_term_term_loop_parse_factor_dom (Inl (Inr (node, self))) \<Longrightarrow>
     advances self (expression_loop node self)"
  "parse_expression_expression_loop_parse_term_term_loop_parse_factor_dom (Inr (Inl self)) \<Longrightarrow>
     advances self (parse_term self)"
  "parse_expression_expression_loop_parse_term_term_loop_parse_factor_dom (Inr (Inr (Inl (node, self)))) \<Longrightarrow>
     advances self (term_loop node self)"
  "parse_expression_expression_loop_parse_term_term_loop_parse_factor_dom (Inr (Inr (Inr self))) \<Longrightarrow>
     advances self (parse_factor self)"
proof (induct rule: parse_expression_expression_loop_parse_term_term_loop_parse_factor.pinduct)
  case (1 self)
  then show ?case
    by (auto simp: parse_expression.psimps advances_def split: prod.splits result.splits exn.splits)
next
  case (2 node self)
  then show ?case
    by (auto simp: expression_loop.psimps advances_def consume_def split: prod.splits result.splits exn.splits)
next
  case (3 self)
  then show ?case 
    by (auto simp: parse_term.psimps advances_def split: prod.splits result.splits exn.splits)
next
  case (4 node self)
  then show ?case
    by (auto simp: term_loop.psimps advances_def consume_def split: prod.splits result.splits exn.splits)
next
  case (5 self)
  then show ?case
    by (auto simp: parse_factor.psimps advances_def consume_def split: prod.splits result.splits exn.splits option.splits)
qed

lemma parse_term_advances_dom:
  assumes "parse_expression_expression_loop_parse_term_term_loop_parse_factor_dom (Inr (Inl self))"
    and "(r, self') = parse_term self"
  shows "length (tokens self') - pos self' \<le> length (tokens self) - pos self"
  using parse_advances_dom(3) [OF assms(1)] assms(2) [symmetric]
  unfolding advances_def by (simp; arith)

lemma parse_factor_advances_dom:
  assumes "parse_expression_expression_loop_parse_term_term_loop_parse_factor_dom
             (Inr (Inr (Inr self)))"
    and "(r, self') = parse_factor self"
  shows "length (tokens self') - pos self' \<le> length (tokens self) - pos self"
  using parse_advances_dom(5) [OF assms(1)] assms(2) [symmetric]
  unfolding advances_def by (simp; arith)

lemma peek_in_less: "peek_in self ops \<Longrightarrow> pos self < length (tokens self)"
  by (simp add: peek_in_def peek_def split: if_splits)

termination parse_expression
proof (relation "measures
    [\<lambda>x. case x of
        Inl (Inl self) \<Rightarrow> length (tokens self) - pos self
      | Inl (Inr (n, self)) \<Rightarrow> length (tokens self) - pos self
      | Inr (Inl self) \<Rightarrow> length (tokens self) - pos self
      | Inr (Inr (Inl (n, self))) \<Rightarrow> length (tokens self) - pos self
      | Inr (Inr (Inr self)) \<Rightarrow> length (tokens self) - pos self,
     \<lambda>x. case x of
        Inl (Inl self) \<Rightarrow> 5
      | Inl (Inr (n, self)) \<Rightarrow> 4
      | Inr (Inl self) \<Rightarrow> 3
      | Inr (Inr (Inl (n, self))) \<Rightarrow> 2
      | Inr (Inr (Inr self)) \<Rightarrow> 1]", goal_cases)
  case 1
  show ?case by simp
next
  case (2 self)
  show ?case by simp
next
  case (3 self x y x1)
  from parse_term_advances_dom [OF 3(3) 3(1)] show ?case by auto
next
  case (4 node self)
  from peek_in_less [OF 4(1)] show ?case unfolding consume_def by (simp; arith)
next
  case (5 node self x y x1)
  from parse_term_advances_dom [OF 5(4) 5(2)] peek_in_less [OF 5(1)]
  show ?case unfolding consume_def by (simp; arith)
next
  case (6 self)
  show ?case by simp
next
  case (7 self x y x1)
  from parse_factor_advances_dom [OF 7(3) 7(1)] show ?case by auto
next
  case (8 node self)
  from peek_in_less [OF 8(1)] show ?case unfolding consume_def by (simp; arith)
next
  case (9 node self x y x1)
  from parse_factor_advances_dom [OF 9(4) 9(2)] peek_in_less [OF 9(1)]
  show ?case unfolding consume_def by (simp; arith)
next
  case (10 self x2)
  then have "pos self < length (tokens self)"
    by (simp add: peek_def split: if_splits)
  then show ?case unfolding consume_def by (simp; arith)
qed

text \<open>The defining equations are unfolded by hand, one call at a time.\<close>

declare parse_expression.simps [simp del] expression_loop.simps [simp del]
  parse_term.simps [simp del] term_loop.simps [simp del] parse_factor.simps [simp del]

subsection \<open>Python floats\<close>

text \<open>
  A \<open>float\<close> is an IEEE 754 binary64 number: a finite value (a rational whose
  significand fits 53 bits), the negative zero, an infinity with its sign, or a NaN.
  \<open>Finite 0\<close> is the positive zero. Arithmetic computes the exact rational result
  and rounds it to the nearest representable value, ties to the even significand.
\<close>

datatype pyfloat = Finite rat | Neg_zero | Inf bool | NaN

definition pow2 :: "int \<Rightarrow> rat" where
  "pow2 e = (if 0 \<le> e then 2 ^ nat e else 1 / 2 ^ nat (- e))"

text \<open>
  For \<open>a > 0\<close>, the exponent \<open>e\<close> with \<open>2 ^ e \<le> a < 2 ^ (e + 1)\<close>, from the
  numbers of binary digits (\<open>bitlen\<close>) of the numerator and the denominator.
\<close>

definition floor_log2 :: "rat \<Rightarrow> int" where
  "floor_log2 a =
     (let (p, q) = quotient_of a;
          d = bitlen p - bitlen q
      in if pow2 d \<le> a then d else d - 1)"

definition round_half_even :: "rat \<Rightarrow> int" where
  "round_half_even x =
     (let f = \<lfloor>x\<rfloor>; r = x - of_int f
      in if r < 1 / 2 then f
         else if 1 / 2 < r then f + 1
         else if even f then f else f + 1)"

text \<open>
  Rounding an exact result to binary64: the spacing of the representable numbers around
  \<open>\<bar>x\<bar>\<close> is \<open>2 ^ (e - 52)\<close>, with \<open>e\<close> no smaller than \<open>-1022\<close> (the subnormal
  range); a result that rounds to nothing is a zero with the sign of \<open>x\<close>, and one
  that reaches \<open>2 ^ 1024\<close> is an infinity.
\<close>

definition signed_zero :: "bool \<Rightarrow> pyfloat" where
  "signed_zero negative = (if negative then Neg_zero else Finite 0)"

definition to_double :: "rat \<Rightarrow> pyfloat" where
  "to_double x =
     (if x = 0 then Finite 0
      else
        (let a = \<bar>x\<bar>;
             e = max (floor_log2 a) (- 1022);
             ulp = pow2 (e - 52);
             m = of_int (round_half_even (a / ulp)) * ulp
         in if m = 0 then signed_zero (x < 0)
            else if 1024 \<le> floor_log2 m then Inf (x < 0)
            else Finite (if x < 0 then - m else m)))"

fun fval :: "pyfloat \<Rightarrow> rat" where
  "fval (Finite q) = q"
| "fval _ = 0"

fun is_neg :: "pyfloat \<Rightarrow> bool" where
  "is_neg (Finite q) = (q < 0)"
| "is_neg Neg_zero = True"
| "is_neg (Inf s) = s"
| "is_neg NaN = False"

definition is_zero :: "pyfloat \<Rightarrow> bool" where
  "is_zero x = (x = Finite 0 \<or> x = Neg_zero)"

fun float_neg :: "pyfloat \<Rightarrow> pyfloat" where
  "float_neg (Finite q) = (if q = 0 then Neg_zero else Finite (- q))"
| "float_neg Neg_zero = Finite 0"
| "float_neg (Inf s) = Inf (\<not> s)"
| "float_neg NaN = NaN"

fun float_add :: "pyfloat \<Rightarrow> pyfloat \<Rightarrow> pyfloat" where
  "float_add NaN y = NaN"
| "float_add x NaN = NaN"
| "float_add (Inf s) (Inf t) = (if s = t then Inf s else NaN)"
| "float_add (Inf s) y = Inf s"
| "float_add x (Inf t) = Inf t"
| "float_add Neg_zero Neg_zero = Neg_zero"
| "float_add x y = to_double (fval x + fval y)"

definition float_sub :: "pyfloat \<Rightarrow> pyfloat \<Rightarrow> pyfloat" where
  "float_sub x y = float_add x (float_neg y)"

fun float_mul :: "pyfloat \<Rightarrow> pyfloat \<Rightarrow> pyfloat" where
  "float_mul NaN y = NaN"
| "float_mul x NaN = NaN"
| "float_mul (Inf s) y = (if is_zero y then NaN else Inf (s \<noteq> is_neg y))"
| "float_mul x (Inf t) = (if is_zero x then NaN else Inf (is_neg x \<noteq> t))"
| "float_mul x y =
     (if is_zero x \<or> is_zero y then signed_zero (is_neg x \<noteq> is_neg y)
      else to_double (fval x * fval y))"

text \<open>
  \<open>float.__truediv__\<close> tests the divisor first and raises
  \<open>ZeroDivisionError: float division by zero\<close>; otherwise the division is IEEE's.
\<close>

fun float_div :: "pyfloat \<Rightarrow> pyfloat \<Rightarrow> pyfloat result" where
  "float_div x y =
     (if is_zero y then Raises ZeroDivisionError
      else Returns
        (case (x, y) of
           (NaN, _) \<Rightarrow> NaN
         | (_, NaN) \<Rightarrow> NaN
         | (Inf s, Inf t) \<Rightarrow> NaN
         | (Inf s, _) \<Rightarrow> Inf (s \<noteq> is_neg y)
         | (_, Inf t) \<Rightarrow> signed_zero (is_neg x \<noteq> t)
         | _ \<Rightarrow>
             if is_zero x then signed_zero (is_neg x \<noteq> is_neg y)
             else to_double (fval x / fval y)))"

text \<open>
  \<open>float(text)\<close> on a text of the \<open>NUMBER\<close> pattern (digits, or digits, a dot and
  digits) is the decimal number rounded to binary64. The model answers \<open>ValueError\<close> on
  every other text; Python does so for some of them only (it reads exponents, signs,
  \<open>inf\<close> and more), and none of them reaches \<open>evaluate\<close> through the tokenizer.
\<close>

definition digit_value :: "char \<Rightarrow> int" where
  "digit_value c = of_char c - 48"

definition decimal :: "string \<Rightarrow> int" where
  "decimal ds = foldl (\<lambda>n c. 10 * n + digit_value c) 0 ds"

definition float_py :: "string \<Rightarrow> pyfloat result" where
  "float_py s =
     (let whole = takeWhile is_digit s; rest = dropWhile is_digit s
      in if whole = [] then Raises ValueError
         else if rest = [] then Returns (to_double (of_int (decimal whole)))
         else if hd rest = CHR ''.'' \<and> tl rest \<noteq> [] \<and> list_all is_digit (tl rest)
         then Returns (to_double (of_int (decimal (whole @ tl rest)) / 10 ^ length (tl rest)))
         else Raises ValueError)"

subsection \<open>The symbol table\<close>

text \<open>
  A value is a float or \<open>None\<close>. The table is the dictionary \<open>self.table\<close>;
  \<open>get\<close> is \<open>self.table.get(variable, None)\<close>, and \<open>set\<close> stores and then saves
  the table to its file.
\<close>

datatype pyvalue = Float pyfloat | PyNone

type_synonym symbol_table = "string \<rightharpoonup> pyvalue"

definition table_get :: "symbol_table \<Rightarrow> string \<Rightarrow> pyvalue" where
  "table_get self variable = (case self variable of None \<Rightarrow> PyNone | Some v \<Rightarrow> v)"

definition table_set :: "symbol_table \<Rightarrow> string \<Rightarrow> pyvalue \<Rightarrow> symbol_table" where
  "table_set self variable v = self(variable \<mapsto> v)"

subsection \<open>Evaluation\<close>

text \<open>An arithmetic operator on two values; \<open>None\<close> as an operand is a \<open>TypeError\<close>.\<close>

fun binary :: "string \<Rightarrow> pyvalue \<Rightarrow> pyvalue \<Rightarrow> pyvalue result" where
  "binary op (Float x) (Float y) =
     (if op = ''+'' then Returns (Float (float_add x y))
      else if op = ''-'' then Returns (Float (float_sub x y))
      else if op = ''*'' then Returns (Float (float_mul x y))
      else if op = ''/'' then
        (case float_div x y of Returns q \<Rightarrow> Returns (Float q) | Raises e \<Rightarrow> Raises e)
      else Returns PyNone)"
| "binary op left_val right_val =
     (if op = ''+'' \<or> op = ''-'' \<or> op = ''*'' \<or> op = ''/'' then Raises TypeError
      else Returns PyNone)"

text \<open>
  \<open>evaluate\<close> evaluates the left operand, then the right one, then applies the
  operator; with an operator that is none of the four it falls off its \<open>if\<close> chain and
  returns \<open>None\<close>. Indexing \<open>None\<close> (a tree that is \<open>None\<close>) is a \<open>TypeError\<close>.
\<close>

fun evaluate :: "node \<Rightarrow> symbol_table \<Rightarrow> pyvalue result" where
  "evaluate (Number v) symbol_table =
     (case float_py v of Returns x \<Rightarrow> Returns (Float x) | Raises e \<Rightarrow> Raises e)"
| "evaluate (Identifier name) symbol_table =
     (case table_get symbol_table name of
        PyNone \<Rightarrow> Raises (NameError (''Undefined variable: '' @ name))
      | v \<Rightarrow> Returns v)"
| "evaluate (Bin_op op left right) symbol_table =
     (case evaluate left symbol_table of
        Raises e \<Rightarrow> Raises e
      | Returns left_val \<Rightarrow>
          (case evaluate right symbol_table of
             Raises e \<Rightarrow> Raises e
           | Returns right_val \<Rightarrow> binary op left_val right_val))"
| "evaluate None_node symbol_table = Raises TypeError"

subsection \<open>The driver\<close>

text \<open>\<open>str.split(sep)\<close> for a one-character separator, and \<open>str.strip()\<close>.\<close>

fun str_split :: "string \<Rightarrow> char \<Rightarrow> string list" where
  "str_split [] sep = [[]]"
| "str_split (c # cs) sep =
     (if c = sep then [] # str_split cs sep
      else (case str_split cs sep of
              part # parts \<Rightarrow> (c # part) # parts
            | [] \<Rightarrow> [[c]]))"

definition is_space :: "char \<Rightarrow> bool" where
  "is_space c = ((of_char c :: nat) \<in> {9, 10, 11, 12, 13, 28, 29, 30, 31, 32, 133, 160})"

definition strip :: "string \<Rightarrow> string" where
  "strip s = rev (dropWhile is_space (rev (dropWhile is_space s)))"

text \<open>
  What \<open>process_expression\<close> returns: one of its four formatted strings, kept here as
  its parts, or nothing at all when an exception leaves the function.
  \<^item> \<open>Assignment variable value\<close> is \<open>"{variable} = {value}"\<close>;
  \<^item> \<open>Result value\<close> is \<open>"Result: {result}"\<close>;
  \<^item> \<open>Parsing_error error\<close> is \<open>"Parsing error: {parser.error}"\<close>;
  \<^item> \<open>Evaluation_error e\<close> is \<open>"Evaluation error: {e}"\<close>;
  \<^item> \<open>Uncaught e\<close>: the exception \<open>e\<close> propagates to the caller, and \<open>main\<close>
    does not catch it.
\<close>

datatype outcome =
    Assignment string pyvalue
  | Result pyvalue
  | Parsing_error "message option"
  | Evaluation_error exn
  | Uncaught exn

text \<open>
  The first \<open>try\<close> of \<open>process_expression\<close> guards the writing of \<open>tokens.txt\<close>;
  \<open>tokenize\<close> itself raises nothing. The calls of the parser stand outside every
  \<open>try\<close>; \<open>evaluate\<close> and \<open>set\<close> stand inside \<open>except Exception\<close>.
\<close>

definition process_expression :: "string \<Rightarrow> symbol_table \<Rightarrow> outcome \<times> symbol_table" where
  "process_expression input_string symbol_table =
     (let tokens = tokenize input_string
      in if CHR ''='' \<in> set input_string then
           (let parts = str_split input_string (CHR ''='');
                variable = strip (parts ! 0);
                expression = strip (parts ! 1);
                tokens = tokenize expression
            in case parse_expression (Parser tokens) of
                 (Raises e, parser) \<Rightarrow> (Uncaught e, symbol_table)
               | (Returns parse_tree, parser) \<Rightarrow>
                   if parse_tree \<noteq> None_node \<and> error parser = None then
                     (case evaluate parse_tree symbol_table of
                        Returns v \<Rightarrow>
                          (Assignment variable v, table_set symbol_table variable v)
                      | Raises e \<Rightarrow> (Evaluation_error e, symbol_table))
                   else (Parsing_error (error parser), symbol_table))
         else
           (case parse_expression (Parser tokens) of
              (Raises e, parser) \<Rightarrow> (Uncaught e, symbol_table)
            | (Returns parse_tree, parser) \<Rightarrow>
                if error parser \<noteq> None then (Parsing_error (error parser), symbol_table)
                else
                  (case evaluate parse_tree symbol_table of
                     Returns result \<Rightarrow> (Result result, symbol_table)
                   | Raises e \<Rightarrow> (Evaluation_error e, symbol_table))))"

section \<open>Properties\<close>

subsection \<open>The symbol table\<close>

text \<open>
  Claim C10. \<open>set\<close> always succeeds (it is a total function) and changes one key only:
  after \<open>set(name, v)\<close>, \<open>get(name)\<close> is \<open>v\<close> and \<open>get\<close> of every other name is
  what it was.
\<close>

theorem table_set_get:
  "table_get (table_set self name v) n = (if n = name then v else table_get self n)"
  by (simp add: table_get_def table_set_def)

subsection \<open>Failures leave the symbol table alone\<close>

text \<open>
  A failure is every outcome that is neither a result nor an assignment: a parsing error,
  an evaluation error, or an exception that leaves \<open>process_expression\<close>.
\<close>

fun is_failure :: "outcome \<Rightarrow> bool" where
  "is_failure (Assignment variable v) = False"
| "is_failure (Result v) = False"
| "is_failure (Parsing_error e) = True"
| "is_failure (Evaluation_error e) = True"
| "is_failure (Uncaught e) = True"

text \<open>
  Claim C5. Whenever processing a line ends in a failure, at any stage and whether or not
  the line is an assignment, the symbol table after the line is the table before it.
\<close>

theorem failure_keeps_table:
  "is_failure (fst (process_expression s st)) \<Longrightarrow> snd (process_expression s st) = st"
  by (auto simp: process_expression_def Let_def split: prod.splits result.splits if_splits)

theorem failure_keeps_table_witness:
  "is_failure (fst (process_expression ''x = y + 1'' [''x'' \<mapsto> Float (Finite 5)])) \<and>
   snd (process_expression ''x = y + 1'' [''x'' \<mapsto> Float (Finite 5)]) =
     [''x'' \<mapsto> Float (Finite 5)]"
proof -
  have h: "is_failure (fst (process_expression ''x = y + 1'' [''x'' \<mapsto> Float (Finite 5)]))"
    by code_simp
  from failure_keeps_table [OF h] h show ?thesis by simp
qed

subsection \<open>Splitting an assignment line\<close>

lemma str_split_not_Nil: "str_split s sep \<noteq> []"
  by (induction s) (auto split: list.splits)

lemma str_split_hd: "hd (str_split s sep) = takeWhile (\<lambda>c. c \<noteq> sep) s"
  by (induction s) (auto split: list.splits simp: str_split_not_Nil)

lemma str_split_tl:
  "sep \<in> set s \<Longrightarrow>
   tl (str_split s sep) = str_split (tl (dropWhile (\<lambda>c. c \<noteq> sep) s)) sep"
  by (induction s) (auto split: list.splits simp: str_split_not_Nil)

lemma str_split_0: "str_split s sep ! 0 = takeWhile (\<lambda>c. c \<noteq> sep) s"
  using str_split_hd [of s sep] str_split_not_Nil [of s sep]
  by (simp add: hd_conv_nth)

lemma str_split_1:
  assumes "sep \<in> set s"
  shows "str_split s sep ! 1 =
         takeWhile (\<lambda>c. c \<noteq> sep) (tl (dropWhile (\<lambda>c. c \<noteq> sep) s))"
proof -
  have "str_split s sep ! 1 = tl (str_split s sep) ! 0"
    using str_split_not_Nil [of s sep] by (cases "str_split s sep") auto
  also have "\<dots> = str_split (tl (dropWhile (\<lambda>c. c \<noteq> sep) s)) sep ! 0"
    using assms by (simp add: str_split_tl)
  finally show ?thesis by (simp add: str_split_0)
qed

text \<open>
  The text left of the first separator, the text right of it, and the line cut just before
  its second separator (the whole line when it has one).
\<close>

definition before_first :: "char \<Rightarrow> string \<Rightarrow> string" where
  "before_first sep s = takeWhile (\<lambda>c. c \<noteq> sep) s"

definition after_first :: "char \<Rightarrow> string \<Rightarrow> string" where
  "after_first sep s = tl (dropWhile (\<lambda>c. c \<noteq> sep) s)"

definition before_second :: "char \<Rightarrow> string \<Rightarrow> string" where
  "before_second sep s = before_first sep s @ [sep] @ before_first sep (after_first sep s)"

lemma before_second_parts:
  assumes "sep \<in> set s"
  shows "sep \<in> set (before_second sep s)"
    and "str_split (before_second sep s) sep ! 0 = str_split s sep ! 0"
    and "str_split (before_second sep s) sep ! 1 = str_split s sep ! 1"
proof -
  let ?ne = "\<lambda>c. c \<noteq> sep"
  show in_cut: "sep \<in> set (before_second sep s)"
    by (simp add: before_second_def)
  have tw: "takeWhile ?ne (xs @ sep # ys) = xs" if "sep \<notin> set xs" for xs ys
    using that by (induction xs) auto
  have dw: "dropWhile ?ne (xs @ sep # ys) = sep # ys" if "sep \<notin> set xs" for xs ys
    using that by (induction xs) auto
  have notin: "sep \<notin> set (takeWhile ?ne xs)" for xs
    by (induction xs) auto
  show "str_split (before_second sep s) sep ! 0 = str_split s sep ! 0"
    by (simp add: str_split_0 before_second_def before_first_def tw notin)
  have "str_split (before_second sep s) sep ! 1 =
        takeWhile ?ne (tl (dropWhile ?ne (before_second sep s)))"
    using in_cut by (rule str_split_1)
  also have "\<dots> = takeWhile ?ne (tl (dropWhile ?ne s))"
    by (simp add: before_second_def before_first_def after_first_def dw notin)
  also have "\<dots> = str_split s sep ! 1"
    using str_split_1 [OF assms] by simp
  finally show "str_split (before_second sep s) sep ! 1 = str_split s sep ! 1" .
qed

lemma assignment_branch:
  assumes "CHR ''='' \<in> set s"
    and "parse_expression (Parser (tokenize (strip (str_split s (CHR ''='') ! 1)))) = (r, p)"
  shows "process_expression s st =
         (case r of
            Raises e \<Rightarrow> (Uncaught e, st)
          | Returns t \<Rightarrow>
              if t \<noteq> None_node \<and> error p = None then
                (case evaluate t st of
                   Returns v \<Rightarrow>
                     (Assignment (strip (str_split s (CHR ''='') ! 0)) v,
                      table_set st (strip (str_split s (CHR ''='') ! 0)) v)
                 | Raises e \<Rightarrow> (Evaluation_error e, st))
              else (Parsing_error (error p), st))"
  unfolding process_expression_def Let_def assms(2)
  using assms(1) by (simp split: result.splits)

lemma parts_0: "str_split s sep ! 0 = before_first sep s"
  by (simp add: str_split_0 before_first_def)

lemma parts_1: "sep \<in> set s \<Longrightarrow> str_split s sep ! 1 = before_first sep (after_first sep s)"
  using str_split_1 [of sep s] by (simp add: before_first_def after_first_def)

text \<open>
  Claim C4, as the program has it. \<open>split('=')\<close> cuts the line at every \<open>=\<close> and the
  driver takes the first two pieces. On every line with an \<open>=\<close> the outcome and the
  new table are those of the following steps: the text between the first and the second
  \<open>=\<close> (up to the end of the line when there is one \<open>=\<close> only), trimmed, is lexed
  and parsed; an exception of the parser other than a syntax error leaves the driver; a
  tree that is \<open>None\<close> or a parser error is a parsing error; otherwise the tree is
  evaluated, an exception is an evaluation error, and a value is stored under the trimmed
  text left of the first \<open>=\<close>, which the outcome names. What follows a second \<open>=\<close>
  plays no part: the line is processed exactly as the line cut before its second \<open>=\<close>.
\<close>

theorem split_ignores_after_second:
  assumes "CHR ''='' \<in> set s"
    and "parse_expression
           (Parser (tokenize (strip (before_first (CHR ''='') (after_first (CHR ''='') s))))) =
         (r, p)"
  shows "process_expression s st =
         (case r of
            Raises e \<Rightarrow> (Uncaught e, st)
          | Returns t \<Rightarrow>
              if t \<noteq> None_node \<and> error p = None then
                (case evaluate t st of
                   Returns v \<Rightarrow>
                     (Assignment (strip (before_first (CHR ''='') s)) v,
                      table_set st (strip (before_first (CHR ''='') s)) v)
                 | Raises e \<Rightarrow> (Evaluation_error e, st))
              else (Parsing_error (error p), st)) \<and>
         process_expression s st = process_expression (before_second (CHR ''='') s) st"
proof -
  note parts = before_second_parts [OF assms(1)]
  have cut: "process_expression s st = process_expression (before_second (CHR ''='') s) st"
    unfolding process_expression_def Let_def parts(2) parts(3)
    using assms(1) parts(1) by simp
  have "parse_expression (Parser (tokenize (strip (str_split s (CHR ''='') ! 1)))) = (r, p)"
    using assms(2) parts_1 [OF assms(1)] by simp
  from assignment_branch [OF assms(1) this, of st, unfolded parts_0] cut show ?thesis
    by (rule conjI)
qed

text \<open>
  The theorem at \<open>x = 1 = 2\<close>, which stores \<open>1.0\<close> under \<open>x\<close> as the line
  \<open>x = 1\<close> does, and at \<open>x = = 2\<close>, where the expression is the empty text between
  the two \<open>=\<close> and the parser aborts on it.
\<close>

theorem split_ignores_after_second_witness:
  "CHR ''='' \<in> set ''x = 1 = 2'' \<and>
   strip (before_first (CHR ''='') ''x = 1 = 2'') = ''x'' \<and>
   strip (before_first (CHR ''='') (after_first (CHR ''='') ''x = 1 = 2'')) = ''1'' \<and>
   parse_expression (Parser (tokenize ''1'')) =
     (Returns (Number ''1''), \<lparr>tokens = [(NUMBER, ''1'')], pos = 1, error = None\<rparr>) \<and>
   evaluate (Number ''1'') Map.empty = Returns (Float (Finite 1)) \<and>
   process_expression ''x = 1 = 2'' Map.empty =
     (Assignment ''x'' (Float (Finite 1)), table_set Map.empty ''x'' (Float (Finite 1))) \<and>
   process_expression ''x = 1 = 2'' Map.empty =
     process_expression (before_second (CHR ''='') ''x = 1 = 2'') Map.empty \<and>
   before_second (CHR ''='') ''x = 1 = 2'' = ''x = 1 '' \<and>
   CHR ''='' \<in> set ''x = = 2'' \<and>
   strip (before_first (CHR ''='') (after_first (CHR ''='') ''x = = 2'')) = [] \<and>
   parse_expression (Parser (tokenize [])) = (Raises TypeError, Parser []) \<and>
   process_expression ''x = = 2'' Map.empty = (Uncaught TypeError, Map.empty)"
proof -
  have h: "CHR ''='' \<in> set ''x = 1 = 2''" and h': "CHR ''='' \<in> set ''x = = 2''"
    by simp_all
  have k: "strip (before_first (CHR ''='') ''x = 1 = 2'') = ''x''"
    by (simp add: strip_def is_space_def before_first_def)
  have e: "strip (before_first (CHR ''='') (after_first (CHR ''='') ''x = 1 = 2'')) = ''1''"
    by (simp add: strip_def is_space_def before_first_def after_first_def)
  have e': "strip (before_first (CHR ''='') (after_first (CHR ''='') ''x = = 2'')) = []"
    by (simp add: strip_def is_space_def before_first_def after_first_def)
  have t: "parse_expression (Parser (tokenize ''1'')) =
     (Returns (Number ''1''), \<lparr>tokens = [(NUMBER, ''1'')], pos = 1, error = None\<rparr>)"
    by code_simp
  have t': "parse_expression (Parser (tokenize [])) = (Raises TypeError, Parser [])"
    by code_simp
  have v: "evaluate (Number ''1'') Map.empty = Returns (Float (Finite 1))"
    by code_simp
  have c: "before_second (CHR ''='') ''x = 1 = 2'' = ''x = 1 ''"
    by (simp add: before_second_def before_first_def after_first_def)
  have p: "parse_expression
             (Parser (tokenize (strip (before_first (CHR ''='')
                (after_first (CHR ''='') ''x = 1 = 2''))))) =
     (Returns (Number ''1''), \<lparr>tokens = [(NUMBER, ''1'')], pos = 1, error = None\<rparr>)"
    unfolding e by (rule t)
  have p': "parse_expression
              (Parser (tokenize (strip (before_first (CHR ''='')
                 (after_first (CHR ''='') ''x = = 2''))))) =
     (Raises TypeError, Parser [])"
    unfolding e' by (rule t')
  note w = split_ignores_after_second [OF h p, of Map.empty]
  note w' = split_ignores_after_second [OF h' p', of Map.empty]
  have w1: "process_expression ''x = 1 = 2'' Map.empty =
     (Assignment ''x'' (Float (Finite 1)), table_set Map.empty ''x'' (Float (Finite 1)))"
    using w [THEN conjunct1] by (simp add: v k del: evaluate.simps)
  have w2: "process_expression ''x = 1 = 2'' Map.empty =
     process_expression (before_second (CHR ''='') ''x = 1 = 2'') Map.empty"
    using w [THEN conjunct2] .
  have w3: "process_expression ''x = = 2'' Map.empty = (Uncaught TypeError, Map.empty)"
    using w' [THEN conjunct1] by simp
  show ?thesis
    by (intro conjI) (fact h k e t v w1 w2 c h' e' t' w3)+
qed

text \<open>
  The driver as the specification words it: the line is cut at its first \<open>=\<close> only,
  and the expression is the whole remainder of the line. It is \<open>process_expression\<close>
  on a line with an \<open>=\<close>, but for the two texts.
\<close>

definition process_expression_first_split ::
  "string \<Rightarrow> symbol_table \<Rightarrow> outcome \<times> symbol_table" where
  "process_expression_first_split input_string symbol_table =
     (let variable = strip (before_first (CHR ''='') input_string);
          expression = strip (after_first (CHR ''='') input_string);
          tokens = tokenize expression
      in case parse_expression (Parser tokens) of
           (Raises e, parser) \<Rightarrow> (Uncaught e, symbol_table)
         | (Returns parse_tree, parser) \<Rightarrow>
             if parse_tree \<noteq> None_node \<and> error parser = None then
               (case evaluate parse_tree symbol_table of
                  Returns v \<Rightarrow>
                    (Assignment variable v, table_set symbol_table variable v)
                | Raises e \<Rightarrow> (Evaluation_error e, symbol_table))
             else (Parsing_error (error parser), symbol_table))"

text \<open>
  The claim as the specification states it fails. For \<open>x = = 2\<close> the remainder of the
  line after its first \<open>=\<close> is \<open>= 2\<close>, whose first token is no factor: lexing and
  parsing it is the parsing error \<open>Unexpected token: ('ASSIGN', '=')\<close>. The program
  takes the empty text between the two \<open>=\<close> for the expression, and its parser aborts
  with a \<open>TypeError\<close>.
\<close>

theorem rhs_is_not_the_remainder:
  "strip (str_split ''x = = 2'' (CHR ''='') ! 1) = [] \<and>
   strip (after_first (CHR ''='') ''x = = 2'') = ''= 2'' \<and>
   fst (process_expression ''x = = 2'' Map.empty) = Uncaught TypeError \<and>
   fst (parse_expression (Parser (tokenize ''= 2''))) = Returns None_node \<and>
   error (snd (parse_expression (Parser (tokenize ''= 2'')))) =
     Some (Unexpected_token (ASSIGN, ''='')) \<and>
   fst (process_expression_first_split ''x = = 2'' Map.empty) =
     Parsing_error (Some (Unexpected_token (ASSIGN, ''=''))) \<and>
   fst (process_expression ''x = = 2'' Map.empty) \<noteq>
     fst (process_expression_first_split ''x = = 2'' Map.empty)"
  by code_simp

subsection \<open>A missing operand\<close>

text \<open>
  Claim C2 asks for a parse failure returned as a value when a factor is required and the
  input has ended. \<open>parse_factor\<close> indexes the \<open>None\<close> that \<open>peek\<close> returns there: a
  \<open>TypeError\<close>, which \<open>except SyntaxError\<close> does not catch and which leaves
  \<open>process_expression\<close>, whose parser calls stand outside its \<open>try\<close> blocks. So the lines
  \<open>2 +\<close>, the empty line and \<open>x = 2 +\<close> end in an uncaught exception.
\<close>

theorem missing_factor_aborts:
  "parse_factor (Parser []) = (Raises TypeError, Parser []) \<and>
   fst (process_expression ''2 +'' st) = Uncaught TypeError \<and>
   fst (process_expression [] st) = Uncaught TypeError \<and>
   fst (process_expression ''x = 2 +'' st) = Uncaught TypeError"
  by code_simp

subsection \<open>Division by zero\<close>

text \<open>
  Claim C3, as the program has it. Dividing by a float that is zero raises
  \<open>ZeroDivisionError\<close>; it does not produce an infinity. A line that is such a division
  ends in the failure \<open>Evaluation error: float division by zero\<close> and leaves the symbol
  table as it was. The outcome is a function of the line and the table, hence the same
  on every repetition.
\<close>

theorem division_by_zero_raises:
  assumes "CHR ''='' \<notin> set s"
    and "parse_expression (Parser (tokenize s)) = (Returns (Bin_op ''/'' left right), p)"
    and "error p = None"
    and "evaluate left st = Returns (Float x)"
    and "evaluate right st = Returns (Float y)"
    and "is_zero y"
  shows "evaluate (Bin_op ''/'' left right) st = Raises ZeroDivisionError \<and>
         process_expression s st = (Evaluation_error ZeroDivisionError, st)"
  using assms by (simp add: process_expression_def)

theorem division_by_zero_raises_witness:
  "CHR ''='' \<notin> set ''4 / 0'' \<and>
   parse_expression (Parser (tokenize ''4 / 0'')) =
     (Returns (Bin_op ''/'' (Number ''4'') (Number ''0'')),
      \<lparr>tokens = [(NUMBER, ''4''), (OPERATOR, ''/''), (NUMBER, ''0'')], pos = 3, error = None\<rparr>) \<and>
   evaluate (Number ''4'') Map.empty = Returns (Float (Finite 4)) \<and>
   evaluate (Number ''0'') Map.empty = Returns (Float (Finite 0)) \<and>
   is_zero (Finite 0) \<and>
   evaluate (Bin_op ''/'' (Number ''4'') (Number ''0'')) Map.empty = Raises ZeroDivisionError \<and>
   process_expression ''4 / 0'' Map.empty = (Evaluation_error ZeroDivisionError, Map.empty)"
proof -
  have e: "CHR ''='' \<notin> set ''4 / 0''" by simp
  have t: "parse_expression (Parser (tokenize ''4 / 0'')) =
     (Returns (Bin_op ''/'' (Number ''4'') (Number ''0'')),
      \<lparr>tokens = [(NUMBER, ''4''), (OPERATOR, ''/''), (NUMBER, ''0'')], pos = 3, error = None\<rparr>)"
    by code_simp
  have l: "evaluate (Number ''4'') Map.empty = Returns (Float (Finite 4))" by code_simp
  have r: "evaluate (Number ''0'') Map.empty = Returns (Float (Finite 0))" by code_simp
  have z: "is_zero (Finite 0)" by (simp add: is_zero_def)
  from division_by_zero_raises [OF e t _ l r z] e t l r z show ?thesis by simp
qed

text \<open>
  The specification's reading fails on its own example: \<open>4 / 0\<close> is not a result, and
  in particular not positive infinity.
\<close>

theorem four_by_zero_fails:
  "fst (process_expression ''4 / 0'' Map.empty) = Evaluation_error ZeroDivisionError \<and>
   fst (process_expression ''4 / 0'' Map.empty) \<noteq> Result (Float (Inf False))"
  by code_simp

subsection \<open>The tokenizer\<close>

text \<open>The characters at which one of the five patterns can match.\<close>

definition starts_token :: "char \<Rightarrow> bool" where
  "starts_token c =
     (is_digit c \<or> c \<in> set ''+-*/'' \<or> c \<in> set ''()'' \<or> is_letter c \<or> c = CHR ''='')"

lemma token_regex_None: "token_regex (c # cs) = None \<longleftrightarrow> \<not> starts_token c"
  by (auto simp: token_regex_def token_patterns_def match_NUMBER_def match_OPERATOR_def
        match_PAREN_def match_IDENTIFIER_def match_ASSIGN_def starts_token_def Let_def
      split: option.splits list.splits)

lemma tokenize_Cons_None:
  "token_regex (c # cs) = None \<Longrightarrow> tokenize (c # cs) = tokenize cs"
  by simp

lemma tokenize_Cons_Some:
  "token_regex (c # cs) = Some (t, rest) \<Longrightarrow> tokenize (c # cs) = t # tokenize rest"
  by simp

lemma tokenize_subseq: "subseq (concat (map snd (tokenize s))) s"
proof (induction s rule: tokenize.induct)
  case 1
  show ?case by simp
next
  case (2 c cs)
  show ?case
  proof (cases "token_regex (c # cs)")
    case None
    with 2(1) have "subseq (concat (map snd (tokenize cs))) cs" by simp
    then have "subseq (concat (map snd (tokenize cs))) (c # cs)"
      by (rule list_emb_Cons)
    then show ?thesis by (simp only: tokenize_Cons_None [OF None])
  next
    case (Some r)
    obtain k lexeme rest where r: "r = ((k, lexeme), rest)" by (cases r) auto
    from Some r have tok: "tokenize (c # cs) = (k, lexeme) # tokenize rest"
      by (simp only: tokenize_Cons_Some)
    from Some r have eq: "c # cs = lexeme @ rest" by (simp add: token_regex_append)
    from 2(2) Some r have "subseq (concat (map snd (tokenize rest))) rest" by simp
    then have "subseq (lexeme @ concat (map snd (tokenize rest))) (lexeme @ rest)"
      by (intro list_emb_append_mono) simp_all
    then show ?thesis unfolding tok by (simp add: eq)
  qed
qed

lemma tokenize_keeps: "subseq (filter starts_token s) (concat (map snd (tokenize s)))"
proof (induction s rule: tokenize.induct)
  case 1
  show ?case by simp
next
  case (2 c cs)
  show ?case
  proof (cases "token_regex (c # cs)")
    case None
    then have "\<not> starts_token c" by (simp add: token_regex_None)
    moreover from 2(1) None
    have "subseq (filter starts_token cs) (concat (map snd (tokenize cs)))" by simp
    ultimately show ?thesis by (simp only: tokenize_Cons_None [OF None] filter.simps if_False)
  next
    case (Some r)
    obtain k lexeme rest where r: "r = ((k, lexeme), rest)" by (cases r) auto
    from Some r have tok: "tokenize (c # cs) = (k, lexeme) # tokenize rest"
      by (simp only: tokenize_Cons_Some)
    from Some r have eq: "c # cs = lexeme @ rest" by (simp add: token_regex_append)
    from 2(2) Some r
    have ih: "subseq (filter starts_token rest) (concat (map snd (tokenize rest)))" by simp
    have "subseq (filter starts_token lexeme @ filter starts_token rest)
            (lexeme @ concat (map snd (tokenize rest)))"
      using ih by (intro list_emb_append_mono) simp_all
    then show ?thesis unfolding tok by (simp add: eq)
  qed
qed

lemma tokenize_skip: "\<not> starts_token c \<Longrightarrow> tokenize (c # cs) = tokenize cs"
  by (rule tokenize_Cons_None) (simp add: token_regex_None)

lemma tokenize_take:
  assumes "starts_token c"
  shows "\<exists>t rest. token_regex (c # cs) = Some (t, rest) \<and> c # cs = snd t @ rest \<and>
           snd t \<noteq> [] \<and> tokenize (c # cs) = t # tokenize rest"
proof -
  from assms have "token_regex (c # cs) \<noteq> None" by (simp add: token_regex_None)
  then obtain t rest where tr: "token_regex (c # cs) = Some (t, rest)" by auto
  then have "token_regex (c # cs) = Some ((fst t, snd t), rest)" by simp
  from token_regex_append [OF this] tokenize_Cons_Some [OF tr] tr show ?thesis by blast
qed

lemma starts_token_code:
  "starts_token c \<Longrightarrow> 40 \<le> (of_char c :: nat) \<and> (of_char c :: nat) \<le> 122"
  by (auto simp: starts_token_def is_digit_def is_letter_def)

lemma is_space_no_token: "is_space c \<Longrightarrow> \<not> starts_token c"
  using starts_token_code [of c] by (auto simp: is_space_def)

text \<open>
  Claim C1, as the program has it. The tokenizer has no failure: for every input it
  returns a list of tokens. At a character where none of the five patterns matches,
  \<open>finditer\<close> moves on by one character and the tokens are those of the rest of the
  input: the character is passed over without a trace, and white space is passed over in
  the same way, being such a character. At every other character the alternation matches
  a non-empty text there, which becomes the next token, and the search goes on behind it.
  Hence the texts of the tokens, in order, are a subsequence of the input, and this
  subsequence keeps every digit, letter, operator, parenthesis and \<open>=\<close> of the input.
\<close>

theorem tokenize_skips_silently:
  "tokenize [] = [] \<and>
   (\<not> starts_token c \<longrightarrow> tokenize (c # cs) = tokenize cs) \<and>
   (starts_token c \<longrightarrow>
      (\<exists>t rest. token_regex (c # cs) = Some (t, rest) \<and> c # cs = snd t @ rest \<and>
         snd t \<noteq> [] \<and> tokenize (c # cs) = t # tokenize rest)) \<and>
   (is_space c \<longrightarrow> \<not> starts_token c) \<and>
   subseq (concat (map snd (tokenize s))) s \<and>
   subseq (filter starts_token s) (concat (map snd (tokenize s)))"
proof -
  have nil: "tokenize [] = []"
    by simp
  have skip: "\<not> starts_token c \<longrightarrow> tokenize (c # cs) = tokenize cs"
    using tokenize_skip [of c cs] by (rule impI)
  have take: "starts_token c \<longrightarrow>
      (\<exists>t rest. token_regex (c # cs) = Some (t, rest) \<and> c # cs = snd t @ rest \<and>
         snd t \<noteq> [] \<and> tokenize (c # cs) = t # tokenize rest)"
    using tokenize_take [of c cs] by (rule impI)
  have space: "is_space c \<longrightarrow> \<not> starts_token c"
    using is_space_no_token [of c] by (rule impI)
  show ?thesis
    by (intro conjI) (fact nil skip take space tokenize_subseq tokenize_keeps)+
qed

text \<open>
  The theorem at the character \<open>&\<close> before \<open> 3\<close>, at the digit \<open>2\<close> before
  \<open> & 3\<close> and at a blank.
\<close>

theorem tokenize_skips_silently_witness:
  "\<not> starts_token (CHR ''&'') \<and>
   tokenize ''& 3'' = tokenize '' 3'' \<and>
   starts_token (CHR ''2'') \<and>
   (\<exists>t rest. token_regex ''2 & 3'' = Some (t, rest) \<and> ''2 & 3'' = snd t @ rest \<and>
      snd t \<noteq> [] \<and> tokenize ''2 & 3'' = t # tokenize rest) \<and>
   token_regex ''2 & 3'' = Some ((NUMBER, ''2''), '' & 3'') \<and>
   is_space (CHR '' '') \<and>
   \<not> starts_token (CHR '' '') \<and>
   tokenize '' 3'' = tokenize ''3'' \<and>
   subseq (concat (map snd (tokenize ''2 & 3''))) ''2 & 3'' \<and>
   subseq (filter starts_token ''2 & 3'') (concat (map snd (tokenize ''2 & 3'')))"
proof -
  have a: "\<not> starts_token (CHR ''&'')"
    by (simp add: starts_token_def is_digit_def is_letter_def)
  have b: "starts_token (CHR ''2'')"
    by (simp add: starts_token_def is_digit_def)
  have c: "is_space (CHR '' '')"
    by (simp add: is_space_def)
  have d: "token_regex ''2 & 3'' = Some ((NUMBER, ''2''), '' & 3'')"
    by code_simp
  note w1 = tokenize_skips_silently [of "CHR ''&''" "'' 3''" "''2 & 3''"]
  note w2 = tokenize_skips_silently [of "CHR ''2''" "'' & 3''" "''2 & 3''"]
  note w3 = tokenize_skips_silently [of "CHR '' ''" "''3''" "''2 & 3''"]
  have s1: "tokenize ''& 3'' = tokenize '' 3''"
    using w1 [THEN conjunct2, THEN conjunct1, THEN mp, OF a] .
  have s2: "\<exists>t rest. token_regex ''2 & 3'' = Some (t, rest) \<and> ''2 & 3'' = snd t @ rest \<and>
      snd t \<noteq> [] \<and> tokenize ''2 & 3'' = t # tokenize rest"
    using w2 [THEN conjunct2, THEN conjunct2, THEN conjunct1, THEN mp, OF b] .
  have s3: "\<not> starts_token (CHR '' '')"
    using w3 [THEN conjunct2, THEN conjunct2, THEN conjunct2, THEN conjunct1, THEN mp, OF c] .
  have s4: "tokenize '' 3'' = tokenize ''3''"
    using w3 [THEN conjunct2, THEN conjunct1, THEN mp, OF s3] .
  have s5: "subseq (concat (map snd (tokenize ''2 & 3''))) ''2 & 3''"
    using w1 [THEN conjunct2, THEN conjunct2, THEN conjunct2, THEN conjunct2, THEN conjunct1] .
  have s6: "subseq (filter starts_token ''2 & 3'') (concat (map snd (tokenize ''2 & 3'')))"
    using w1 [THEN conjunct2, THEN conjunct2, THEN conjunct2, THEN conjunct2, THEN conjunct2] .
  show ?thesis
    by (intro conjI) (fact a b c d s1 s2 s3 s4 s5 s6)+
qed

text \<open>
  The specification's example: \<open>2 & 3\<close> is no lexing failure. It gives the tokens of
  \<open>2 3\<close>, and the character \<open>&\<close>, which is not white space, is in none of them.
\<close>

theorem unknown_character_is_dropped:
  "tokenize ''2 & 3'' = [(NUMBER, ''2''), (NUMBER, ''3'')] \<and>
   \<not> is_space (CHR ''&'') \<and>
   CHR ''&'' \<notin> set (concat (map snd (tokenize ''2 & 3'')))"
  by code_simp

subsection \<open>What the tokenizer and the parser produce\<close>

text \<open>
  The texts the patterns \<open>NUMBER\<close> and \<open>IDENTIFIER\<close> match in full, and the tokens
  the tokenizer can produce.
\<close>

definition is_number :: "string \<Rightarrow> bool" where
  "is_number s =
     (let whole = takeWhile is_digit s; rest = dropWhile is_digit s
      in whole \<noteq> [] \<and>
         (rest = [] \<or> (hd rest = CHR ''.'' \<and> tl rest \<noteq> [] \<and> list_all is_digit (tl rest))))"

definition is_identifier :: "string \<Rightarrow> bool" where
  "is_identifier s = (case s of [] \<Rightarrow> False | c # cs \<Rightarrow> is_letter c \<and> list_all is_word cs)"

fun token_ok :: "token \<Rightarrow> bool" where
  "token_ok (NUMBER, v) = is_number v"
| "token_ok (OPERATOR, v) = (v \<in> {''+'', ''-'', ''*'', ''/''})"
| "token_ok (PAREN, v) = (v \<in> {''('', '')''})"
| "token_ok (IDENTIFIER, v) = is_identifier v"
| "token_ok (ASSIGN, v) = (v = ''='')"


lemma dot_not_digit: "\<not> is_digit (CHR ''.'')"
  by (simp add: is_digit_def)

lemma takeWhile_digits_dot:
  "takeWhile is_digit (takeWhile is_digit s @ CHR ''.'' # fr) = takeWhile is_digit s"
  by (induction s) (auto simp: dot_not_digit)

lemma dropWhile_digits_dot:
  "dropWhile is_digit (takeWhile is_digit s @ CHR ''.'' # fr) = CHR ''.'' # fr"
  by (induction s) (auto simp: dot_not_digit)

lemma match_NUMBER_is_number:
  assumes "match_NUMBER s = Some (lexeme, rest)"
  shows "is_number lexeme"
proof (cases s)
  case Nil
  with assms show ?thesis by (simp add: match_NUMBER_def)
next
  case (Cons c cs)
  show ?thesis
  proof (cases "is_digit c")
    case False
    with assms Cons show ?thesis by (simp add: match_NUMBER_def)
  next
    case True
    have whole: "takeWhile is_digit s \<noteq> []"
      using True Cons by simp
    show ?thesis
    proof (cases "\<exists>f fs. dropWhile is_digit s = CHR ''.'' # f # fs \<and> is_digit f")
      case True
      then obtain f fs where r: "dropWhile is_digit s = CHR ''.'' # f # fs" and f: "is_digit f"
        by blast
      from assms Cons \<open>is_digit c\<close> r f
      have l: "lexeme = takeWhile is_digit s @ CHR ''.'' # takeWhile is_digit (f # fs)"
        by (simp add: match_NUMBER_def Let_def)
      have "list_all is_digit (takeWhile is_digit (f # fs))"
        by (simp add: list_all_iff del: takeWhile.simps) (meson set_takeWhileD)
      moreover have "takeWhile is_digit (f # fs) \<noteq> []" using f by simp
      ultimately show ?thesis
        unfolding l is_number_def Let_def takeWhile_digits_dot dropWhile_digits_dot
        using whole by simp
    next
      case False
      with assms Cons \<open>is_digit c\<close>
      have "lexeme = takeWhile is_digit s"
        by (auto simp: match_NUMBER_def Let_def split: list.splits if_splits)
      moreover have "dropWhile is_digit (takeWhile is_digit s) = []"
        by (simp add: dropWhile_eq_Nil_conv) (meson set_takeWhileD)
      ultimately show ?thesis
        using whole by (simp add: is_number_def Let_def)
    qed
  qed
qed

lemma list_all_takeWhile: "list_all P (takeWhile P xs)"
  by (induction xs) auto

lemma token_regex_ok:
  assumes "token_regex s = Some (t, rest)"
  shows "token_ok t"
  using assms match_NUMBER_is_number [of s "snd t" rest]
  by (auto simp: token_regex_def token_patterns_def match_OPERATOR_def match_PAREN_def
        match_IDENTIFIER_def match_ASSIGN_def is_identifier_def list_all_takeWhile
      split: option.splits list.splits if_splits)

lemma tokenize_ok: "list_all token_ok (tokenize s)"
proof (induction s rule: tokenize.induct)
  case 1
  show ?case by simp
next
  case (2 c cs)
  show ?case
  proof (cases "token_regex (c # cs)")
    case None
    with 2(1) have "list_all token_ok (tokenize cs)" by simp
    then show ?thesis by (simp only: tokenize_Cons_None [OF None])
  next
    case (Some r)
    obtain t rest where r: "r = (t, rest)" by (cases r)
    from Some r have tr: "token_regex (c # cs) = Some (t, rest)" by simp
    from 2(2) [OF Some r [symmetric]] have "list_all token_ok (tokenize rest)" .
    moreover from tr have "token_ok t" by (rule token_regex_ok)
    ultimately show ?thesis unfolding tokenize_Cons_Some [OF tr] by simp
  qed
qed

text \<open>
  The trees the parser can return without an error over such tokens: number texts and
  identifier names of the two patterns, one of the four operators at every \<open>bin_op\<close>,
  and no \<open>None\<close> anywhere.
\<close>

fun node_ok :: "node \<Rightarrow> bool" where
  "node_ok (Number v) = is_number v"
| "node_ok (Identifier name) = is_identifier name"
| "node_ok (Bin_op op left right) =
     (op \<in> {''+'', ''-'', ''*'', ''/''} \<and> node_ok left \<and> node_ok right)"
| "node_ok None_node = False"

lemma str_in_cases:
  "str_in v [a, b] \<longleftrightarrow> v = [] \<or> v = [a] \<or> v = [b] \<or> v = [a, b]"
  by (auto simp: prefix_Cons)

lemma token_ok_not_empty: "\<not> token_ok (k, [])"
  by (cases k) (simp_all add: is_number_def is_identifier_def)

lemma token_ok_one_char: "token_ok (k, [a, b]) \<Longrightarrow> is_digit a \<or> is_letter a"
  by (cases k) (auto simp: is_number_def is_identifier_def Let_def split: if_splits)

lemma token_ok_additive:
  assumes "token_ok t" and "str_in (snd t) ''+-''"
  shows "snd t = ''+'' \<or> snd t = ''-''"
proof -
  from assms(2) have "snd t = [] \<or> snd t = ''+'' \<or> snd t = ''-'' \<or> snd t = ''+-''"
    by (simp only: str_in_cases)
  moreover have "\<not> token_ok (fst t, ''+-'')"
    using token_ok_one_char [of "fst t" "CHR ''+''" "CHR ''-''"]
    by (auto simp: is_digit_def is_letter_def)
  ultimately show ?thesis
    using assms(1) token_ok_not_empty [of "fst t"] by (cases t) auto
qed

lemma token_ok_multiplicative:
  assumes "token_ok t" and "str_in (snd t) ''*/''"
  shows "snd t = ''*'' \<or> snd t = ''/''"
proof -
  from assms(2) have "snd t = [] \<or> snd t = ''*'' \<or> snd t = ''/'' \<or> snd t = ''*/''"
    by (simp only: str_in_cases)
  moreover have "\<not> token_ok (fst t, ''*/'')"
    using token_ok_one_char [of "fst t" "CHR ''*''" "CHR ''/''"]
    by (auto simp: is_digit_def is_letter_def)
  ultimately show ?thesis
    using assms(1) token_ok_not_empty [of "fst t"] by (cases t) auto
qed

lemma peek_token_ok:
  "list_all token_ok (tokens self) \<Longrightarrow> peek self = Some t \<Longrightarrow> token_ok t"
  by (auto simp: peek_def list_all_length split: if_splits)

lemma peek_in_additive:
  assumes "list_all token_ok (tokens self)" and "peek_in self ''+-''"
  shows "snd (the (peek self)) \<in> {''+'', ''-'', ''*'', ''/''}"
proof -
  from assms(2) obtain t where t: "peek self = Some t" and "str_in (snd t) ''+-''"
    by (auto simp: peek_in_def split: option.splits)
  with token_ok_additive [OF peek_token_ok [OF assms(1) t]] show ?thesis
    by auto
qed

lemma peek_in_multiplicative:
  assumes "list_all token_ok (tokens self)" and "peek_in self ''*/''"
  shows "snd (the (peek self)) \<in> {''+'', ''-'', ''*'', ''/''}"
proof -
  from assms(2) obtain t where t: "peek self = Some t" and "str_in (snd t) ''*/''"
    by (auto simp: peek_in_def split: option.splits)
  with token_ok_multiplicative [OF peek_token_ok [OF assms(1) t]] show ?thesis
    by auto
qed

text \<open>
  The invariant of the five parser functions: the token list stays, an error once set
  stays, and a tree returned while no error is set is well formed.
\<close>

definition sound :: "parser \<Rightarrow> node result \<times> parser \<Rightarrow> bool" where
  "sound self r =
     (tokens (snd r) = tokens self \<and>
      (error (snd r) = None \<longrightarrow>
         error self = None \<and> (\<forall>t. fst r = Returns t \<longrightarrow> node_ok t)))"

lemma sound_loop:
  assumes ok: "list_all token_ok (tokens self)"
    and node: "error self = None \<longrightarrow> node_ok node"
    and op: "snd (the (peek self)) \<in> {''+'', ''-'', ''*'', ''/''}"
    and operand: "sound (consume self) (r, self1)"
    and again: "\<And>right. r = Returns right \<Longrightarrow> list_all token_ok (tokens self1) \<Longrightarrow>
        (error self1 = None \<longrightarrow> node_ok (Bin_op (snd (the (peek self))) node right)) \<Longrightarrow>
        sound self1 (loop (Bin_op (snd (the (peek self))) node right) self1)"
  shows "sound self
    (case (r, self1) of
       (Returns right, self1) \<Rightarrow> loop (Bin_op (snd (the (peek self))) node right) self1
     | (Raises e, self1) \<Rightarrow> (Raises e, self1))"
proof (cases r)
  case (Raises e)
  with operand show ?thesis by (simp add: sound_def consume_def)
next
  case (Returns right)
  from operand have toks: "tokens self1 = tokens self"
    and err: "error self1 = None \<longrightarrow> error self = None \<and> node_ok right"
    by (simp_all add: sound_def consume_def Returns)
  have "sound self1 (loop (Bin_op (snd (the (peek self))) node right) self1)"
    using ok toks err node op by (intro again [OF Returns]) auto
  with toks err Returns show ?thesis by (simp add: sound_def)
qed

lemma parse_sound:
  "list_all token_ok (tokens self) \<Longrightarrow> sound self (parse_expression self)"
  "list_all token_ok (tokens self) \<Longrightarrow> (error self = None \<longrightarrow> node_ok node) \<Longrightarrow>
     sound self (expression_loop node self)"
  "list_all token_ok (tokens self) \<Longrightarrow> sound self (parse_term self)"
  "list_all token_ok (tokens self) \<Longrightarrow> (error self = None \<longrightarrow> node_ok node) \<Longrightarrow>
     sound self (term_loop node self)"
  "list_all token_ok (tokens self) \<Longrightarrow> sound self (parse_factor self)"
proof (induct self and node self and self and node self and self
    rule: parse_expression_expression_loop_parse_term_term_loop_parse_factor.induct)
  case (1 self)
  obtain r self1 where t: "parse_term self = (r, self1)" by (cases "parse_term self")
  from 1(1) [OF 1(3)] t have s1: "sound self (r, self1)" by simp
  show ?case
  proof (cases r)
    case (Raises e)
    with s1 show ?thesis
      by (subst parse_expression.simps) (simp add: t sound_def split: exn.splits)
  next
    case (Returns node)
    obtain r2 self2 where l: "expression_loop node self1 = (r2, self2)"
      by (cases "expression_loop node self1")
    from s1 Returns have toks: "tokens self1 = tokens self"
      and err: "error self1 = None \<longrightarrow> error self = None \<and> node_ok node"
      by (simp_all add: sound_def)
    from 1(2) [OF t [symmetric] Returns] 1(3) toks err l
    have "sound self1 (r2, self2)" by simp
    with toks err show ?thesis
      by (subst parse_expression.simps)
         (simp add: t Returns l sound_def split: result.splits exn.splits)
  qed
next
  case (2 node self)
  show ?case
  proof (cases "peek_in self ''+-''")
    case False
    with 2(4) show ?thesis by (subst expression_loop.simps) (simp add: sound_def)
  next
    case True
    have c: "list_all token_ok (tokens (consume self))"
      using 2(3) by (simp add: consume_def)
    obtain r self1 where t: "parse_term (consume self) = (r, self1)"
      by (cases "parse_term (consume self)")
    from 2(1) [OF True c] t have s1: "sound (consume self) (r, self1)" by simp
    have "sound self
      (case (r, self1) of
         (Returns right, self1) \<Rightarrow>
           expression_loop (Bin_op (snd (the (peek self))) node right) self1
       | (Raises e, self1) \<Rightarrow> (Raises e, self1))"
      using 2(3) 2(4) peek_in_additive [OF 2(3) True] s1
    proof (rule sound_loop)
      fix right
      assume "r = Returns right" "list_all token_ok (tokens self1)"
        "error self1 = None \<longrightarrow> node_ok (Bin_op (snd (the (peek self))) node right)"
      then show "sound self1 (expression_loop (Bin_op (snd (the (peek self))) node right) self1)"
        by (intro 2(2) [OF True t [symmetric]])
    qed
    then show ?thesis
      by (subst expression_loop.simps) (simp add: True t)
  qed
next
  case (3 self)
  obtain r self1 where t: "parse_factor self = (r, self1)" by (cases "parse_factor self")
  from 3(1) [OF 3(3)] t have s1: "sound self (r, self1)" by simp
  show ?case
  proof (cases r)
    case (Raises e)
    with s1 show ?thesis
      by (subst parse_term.simps) (simp add: t sound_def)
  next
    case (Returns node)
    from s1 Returns have toks: "tokens self1 = tokens self"
      and err: "error self1 = None \<longrightarrow> error self = None \<and> node_ok node"
      by (simp_all add: sound_def)
    from 3(2) [OF t [symmetric] Returns] 3(3) toks err
    have "sound self1 (term_loop node self1)" by simp
    with toks err show ?thesis
      by (subst parse_term.simps) (simp add: t Returns sound_def)
  qed
next
  case (4 node self)
  show ?case
  proof (cases "peek_in self ''*/''")
    case False
    with 4(4) show ?thesis by (subst term_loop.simps) (simp add: sound_def)
  next
    case True
    have c: "list_all token_ok (tokens (consume self))"
      using 4(3) by (simp add: consume_def)
    obtain r self1 where t: "parse_factor (consume self) = (r, self1)"
      by (cases "parse_factor (consume self)")
    from 4(1) [OF True c] t have s1: "sound (consume self) (r, self1)" by simp
    have "sound self
      (case (r, self1) of
         (Returns right, self1) \<Rightarrow>
           term_loop (Bin_op (snd (the (peek self))) node right) self1
       | (Raises e, self1) \<Rightarrow> (Raises e, self1))"
      using 4(3) 4(4) peek_in_multiplicative [OF 4(3) True] s1
    proof (rule sound_loop)
      fix right
      assume "r = Returns right" "list_all token_ok (tokens self1)"
        "error self1 = None \<longrightarrow> node_ok (Bin_op (snd (the (peek self))) node right)"
      then show "sound self1 (term_loop (Bin_op (snd (the (peek self))) node right) self1)"
        by (intro 4(2) [OF True t [symmetric]])
    qed
    then show ?thesis
      by (subst term_loop.simps) (simp add: True t)
  qed
next
  case (5 self)
  show ?case
  proof (cases "peek self")
    case None
    then show ?thesis by (subst parse_factor.simps) (simp add: sound_def)
  next
    case (Some token)
    note ok = peek_token_ok [OF 5(2) Some]
    show ?thesis
    proof (cases "fst token = NUMBER \<or> fst token = IDENTIFIER")
      case True
      with ok show ?thesis
        by (subst parse_factor.simps, cases token)
           (auto simp: Some sound_def consume_def)
    next
      case False
      show ?thesis
      proof (cases "snd token = ''(''")
        case no: False
        with False show ?thesis
          by (subst parse_factor.simps) (simp add: Some sound_def)
      next
        case True
        have c: "list_all token_ok (tokens (consume self))"
          using 5(2) by (simp add: consume_def)
        from False have n: "fst token \<noteq> NUMBER" and i: "fst token \<noteq> IDENTIFIER" by simp_all
        note s1 = 5(1) [OF Some n i True c]
        obtain r self1 where t: "parse_expression (consume self) = (r, self1)"
          by (cases "parse_expression (consume self)")
        from s1 t n i True show ?thesis
          by (subst parse_factor.simps)
             (auto simp: Some sound_def consume_def split: result.splits)
      qed
    qed
  qed
qed

text \<open>
  On such a tree \<open>evaluate\<close> returns a float when it returns.
\<close>

lemma parse_tree_ok:
  assumes "parse_expression (Parser (tokenize s)) = (Returns t, p)" and "error p = None"
  shows "node_ok t"
proof -
  have "sound (Parser (tokenize s)) (parse_expression (Parser (tokenize s)))"
    by (rule parse_sound(1)) (simp add: Parser_def tokenize_ok)
  with assms show ?thesis by (simp add: sound_def)
qed


lemma binary_float:
  assumes "op \<in> {''+'', ''-'', ''*'', ''/''}" and "binary op (Float x) (Float y) = Returns v"
  shows "\<exists>z. v = Float z"
proof (cases "float_div x y")
  case (Returns q)
  with assms show ?thesis by (auto simp del: float_div.simps)
next
  case (Raises e)
  with assms show ?thesis by (auto simp del: float_div.simps)
qed

lemma evaluate_float:
  "node_ok t \<Longrightarrow> evaluate t st = Returns v \<Longrightarrow> \<exists>x. v = Float x"
proof (induction t arbitrary: v)
  case (Number s)
  then show ?case by (auto split: result.splits)
next
  case (Identifier name)
  then show ?case by (cases "table_get st name") auto
next
  case (Bin_op op left right)
  from Bin_op.prems(1) have ol: "node_ok left" and or: "node_ok right"
    and op: "op \<in> {''+'', ''-'', ''*'', ''/''}" by simp_all
  show ?case
  proof (cases "evaluate left st")
    case (Raises e)
    with Bin_op.prems(2) show ?thesis by simp
  next
    case l: (Returns lv)
    show ?thesis
    proof (cases "evaluate right st")
      case (Raises e)
      with l Bin_op.prems(2) show ?thesis by simp
    next
      case r: (Returns rv)
      from Bin_op.IH(1) [OF ol l] obtain x where x: "lv = Float x" by blast
      from Bin_op.IH(2) [OF or r] obtain y where y: "rv = Float y" by blast
      from Bin_op.prems(2) l r x y have "binary op (Float x) (Float y) = Returns v"
        by (simp del: binary.simps)
      from binary_float [OF op this] show ?thesis .
    qed
  qed
next
  case None_node
  then show ?case by simp
qed

subsection \<open>Assignments\<close>

text \<open>
  Claim C9. The driver does not look at the left-hand side of an assignment. On every
  line with an \<open>=\<close> whose right-hand side (the text \<open>parts[1].strip()\<close> the driver
  takes for it) parses to a tree without a parser error and evaluates to a value, the
  trimmed text left of the first \<open>=\<close>, whatever it is, becomes a key of the symbol
  table with this value, and the outcome is an assignment that names it. The lines
  \<open>2 = 3\<close> and \<open>= 3\<close> store \<open>3.0\<close> under the keys \<open>2\<close> and the empty string,
  neither of which is an identifier.
\<close>

theorem assignment_key_unvalidated:
  assumes "CHR ''='' \<in> set s"
    and "parse_expression (Parser (tokenize (strip (str_split s (CHR ''='') ! 1)))) =
         (Returns t, p)"
    and "t \<noteq> None_node"
    and "error p = None"
    and "evaluate t st = Returns v"
  shows "process_expression s st =
           (Assignment (strip (before_first (CHR ''='') s)) v,
            table_set st (strip (before_first (CHR ''='') s)) v) \<and>
         table_get (snd (process_expression s st)) (strip (before_first (CHR ''='') s)) = v"
  using assignment_branch [OF assms(1) assms(2), of st] assms(3-5)
  by (simp add: parts_0 table_get_def table_set_def)

theorem assignment_key_unvalidated_witness:
  "CHR ''='' \<in> set ''2 = 3'' \<and>
   strip (str_split ''2 = 3'' (CHR ''='') ! 1) = ''3'' \<and>
   strip (before_first (CHR ''='') ''2 = 3'') = ''2'' \<and>
   \<not> is_identifier ''2'' \<and>
   CHR ''='' \<in> set ''= 3'' \<and>
   strip (str_split ''= 3'' (CHR ''='') ! 1) = ''3'' \<and>
   strip (before_first (CHR ''='') ''= 3'') = [] \<and>
   \<not> is_identifier [] \<and>
   parse_expression (Parser (tokenize ''3'')) =
     (Returns (Number ''3''), \<lparr>tokens = [(NUMBER, ''3'')], pos = 1, error = None\<rparr>) \<and>
   Number ''3'' \<noteq> None_node \<and>
   evaluate (Number ''3'') Map.empty = Returns (Float (Finite 3)) \<and>
   process_expression ''2 = 3'' Map.empty =
     (Assignment ''2'' (Float (Finite 3)), table_set Map.empty ''2'' (Float (Finite 3))) \<and>
   table_get (snd (process_expression ''2 = 3'' Map.empty)) ''2'' = Float (Finite 3) \<and>
   process_expression ''= 3'' Map.empty =
     (Assignment [] (Float (Finite 3)), table_set Map.empty [] (Float (Finite 3))) \<and>
   table_get (snd (process_expression ''= 3'' Map.empty)) [] = Float (Finite 3)"
proof -
  have a: "CHR ''='' \<in> set ''2 = 3''" and b: "CHR ''='' \<in> set ''= 3''"
    by simp_all
  have ea: "strip (str_split ''2 = 3'' (CHR ''='') ! 1) = ''3''"
    and eb: "strip (str_split ''= 3'' (CHR ''='') ! 1) = ''3''"
    by (simp_all add: strip_def is_space_def)
  have ka: "strip (before_first (CHR ''='') ''2 = 3'') = ''2''"
    and kb: "strip (before_first (CHR ''='') ''= 3'') = []"
    by (simp_all add: strip_def is_space_def before_first_def)
  have na: "\<not> is_identifier ''2''" and nb: "\<not> is_identifier []"
    by (simp_all add: is_identifier_def is_letter_def)
  have t: "parse_expression (Parser (tokenize ''3'')) =
     (Returns (Number ''3''), \<lparr>tokens = [(NUMBER, ''3'')], pos = 1, error = None\<rparr>)"
    by code_simp
  have v: "evaluate (Number ''3'') Map.empty = Returns (Float (Finite 3))"
    by code_simp
  have n: "Number ''3'' \<noteq> None_node"
    by simp
  have er: "error \<lparr>tokens = [(NUMBER, ''3'')], pos = 1, error = None\<rparr> = None"
    by simp
  have ta: "parse_expression (Parser (tokenize (strip (str_split ''2 = 3'' (CHR ''='') ! 1)))) =
     (Returns (Number ''3''), \<lparr>tokens = [(NUMBER, ''3'')], pos = 1, error = None\<rparr>)"
    unfolding ea by (rule t)
  have tb: "parse_expression (Parser (tokenize (strip (str_split ''= 3'' (CHR ''='') ! 1)))) =
     (Returns (Number ''3''), \<lparr>tokens = [(NUMBER, ''3'')], pos = 1, error = None\<rparr>)"
    unfolding eb by (rule t)
  note wa = assignment_key_unvalidated [OF a ta n er v, unfolded ka]
  note wb = assignment_key_unvalidated [OF b tb n er v, unfolded kb]
  note wa1 = wa [THEN conjunct1] and wa2 = wa [THEN conjunct2]
    and wb1 = wb [THEN conjunct1] and wb2 = wb [THEN conjunct2]
  show ?thesis
    by (intro conjI) (fact a b ea eb ka kb na nb t v n wa1 wa2 wb1 wb2)+
qed

text \<open>
  A line that is an identifier, and a line whose expression parses without an error.
  The expression of a line is the text the driver hands to the tokenizer and the parser:
  \<open>parts[1].strip()\<close> on a line with an \<open>=\<close>, the line itself otherwise.
\<close>

lemma letter_starts:
  "is_letter c \<Longrightarrow> \<not> is_digit c \<and> c \<notin> set ''+-*/'' \<and> c \<notin> set ''()''"
  by (auto simp: is_letter_def is_digit_def)

lemma assign_not_word: "\<not> is_word (CHR ''='')"
  by (simp add: is_word_def is_letter_def is_digit_def)

lemma assign_not_letter: "\<not> is_letter (CHR ''='')"
  by (simp add: is_letter_def)

lemma identifier_no_assign: "is_identifier x \<Longrightarrow> CHR ''='' \<notin> set x"
  using assign_not_word assign_not_letter
  by (auto simp: is_identifier_def list_all_iff split: list.splits)

lemma tokenize_identifier:
  assumes "is_identifier x"
  shows "tokenize x = [(IDENTIFIER, x)]"
proof -
  from assms obtain c cs where x: "x = c # cs" and c: "is_letter c" and cs: "list_all is_word cs"
    by (auto simp: is_identifier_def split: list.splits)
  from cs have "takeWhile is_word cs = cs" and "dropWhile is_word cs = []"
    by (simp_all add: list_all_iff)
  with c letter_starts [OF c] have "token_regex (c # cs) = Some ((IDENTIFIER, c # cs), [])"
    by (simp add: token_regex_def token_patterns_def match_NUMBER_def match_OPERATOR_def
          match_PAREN_def match_IDENTIFIER_def)
  from tokenize_Cons_Some [OF this] x show ?thesis by simp
qed

lemma parse_identifier:
  "parse_expression (Parser [(IDENTIFIER, x)]) =
     (Returns (Identifier x), \<lparr>tokens = [(IDENTIFIER, x)], pos = 1, error = None\<rparr>)"
proof -
  let ?p = "\<lparr>tokens = [(IDENTIFIER, x)], pos = Suc 0, error = None\<rparr>"
  have f: "parse_factor (Parser [(IDENTIFIER, x)]) = (Returns (Identifier x), ?p)"
    by (subst parse_factor.simps) (simp add: peek_def Parser_def consume_def)
  have tl: "term_loop (Identifier x) ?p = (Returns (Identifier x), ?p)"
    by (subst term_loop.simps) (simp add: peek_in_def peek_def)
  have el: "expression_loop (Identifier x) ?p = (Returns (Identifier x), ?p)"
    by (subst expression_loop.simps) (simp add: peek_in_def peek_def)
  have t: "parse_term (Parser [(IDENTIFIER, x)]) = (Returns (Identifier x), ?p)"
    by (subst parse_term.simps) (simp add: f tl)
  show ?thesis
    by (subst parse_expression.simps) (simp add: t el)
qed

lemma identifier_line:
  assumes "is_identifier x"
  shows "process_expression x st =
           (case evaluate (Identifier x) st of
              Returns v \<Rightarrow> (Result v, st)
            | Raises e \<Rightarrow> (Evaluation_error e, st))"
  unfolding process_expression_def Let_def tokenize_identifier [OF assms] parse_identifier
  using identifier_no_assign [OF assms] by simp

definition expression_text :: "string \<Rightarrow> string" where
  "expression_text input_string =
     (if CHR ''='' \<in> set input_string then strip (str_split input_string (CHR ''='') ! 1)
      else input_string)"

lemma evaluation_line:
  assumes "parse_expression (Parser (tokenize (expression_text s))) = (Returns t, p)"
    and "error p = None"
  shows "process_expression s st =
           (case evaluate t st of
              Returns v \<Rightarrow>
                if CHR ''='' \<in> set s
                then (Assignment (strip (before_first (CHR ''='') s)) v,
                      table_set st (strip (before_first (CHR ''='') s)) v)
                else (Result v, st)
            | Raises e \<Rightarrow> (Evaluation_error e, st))"
proof (cases "CHR ''='' \<in> set s")
  case True
  with assms(1)
  have pe: "parse_expression (Parser (tokenize (strip (str_split s (CHR ''='') ! 1)))) =
      (Returns t, p)"
    by (simp add: expression_text_def)
  have "node_ok t" using pe assms(2) by (rule parse_tree_ok)
  then have "t \<noteq> None_node" by auto
  with assignment_branch [OF True pe, of st, unfolded parts_0] assms(2) True show ?thesis
    by (simp split: result.splits)
next
  case False
  with assms(1) have pe: "parse_expression (Parser (tokenize s)) = (Returns t, p)"
    by (simp add: expression_text_def)
  show ?thesis
    unfolding process_expression_def Let_def pe
    using False assms(2) by (simp split: result.splits)
qed

text \<open>
  Claim C7. An assignment line whose left-hand side is an identifier \<open>x\<close> and whose
  right-hand side parses without an error and evaluates to \<open>v\<close> stores \<open>v\<close> under
  \<open>x\<close>, whatever \<open>x\<close> held before, and later lines see it: in the new table \<open>x\<close>
  evaluates to \<open>v\<close>, and the line \<open>x\<close> has the result \<open>v\<close> and leaves the table
  as it is. After \<open>x = 5\<close> the line \<open>x + 1\<close> gives \<open>6.0\<close>; after \<open>x = 5\<close> and
  \<open>x = 10\<close> the line \<open>x\<close> gives \<open>10.0\<close>.
\<close>

theorem stored_value_is_observable:
  assumes "CHR ''='' \<in> set s"
    and "x = strip (before_first (CHR ''='') s)"
    and "is_identifier x"
    and "parse_expression (Parser (tokenize (strip (str_split s (CHR ''='') ! 1)))) =
         (Returns t, p)"
    and "error p = None"
    and "evaluate t st = Returns v"
  shows "process_expression s st = (Assignment x v, table_set st x v) \<and>
         table_get (table_set st x v) x = v \<and>
         evaluate (Identifier x) (table_set st x v) = Returns v \<and>
         process_expression x (table_set st x v) = (Result v, table_set st x v)"
proof -
  have pe: "parse_expression (Parser (tokenize (expression_text s))) = (Returns t, p)"
    using assms(1) assms(4) by (simp add: expression_text_def)
  have ok: "node_ok t" using assms(4) assms(5) by (rule parse_tree_ok)
  from evaluate_float [OF ok assms(6)] obtain y where y: "v = Float y" by blast
  have a: "process_expression s st = (Assignment x v, table_set st x v)"
    using evaluation_line [OF pe assms(5), of st] assms(1) assms(2) assms(6) by simp
  have g: "table_get (table_set st x v) x = v"
    by (simp add: table_get_def table_set_def)
  have e: "evaluate (Identifier x) (table_set st x v) = Returns v"
    using g y by simp
  have l: "process_expression x (table_set st x v) = (Result v, table_set st x v)"
    using identifier_line [OF assms(3), of "table_set st x v"] e by simp
  from a g e l show ?thesis by (intro conjI)
qed

theorem stored_value_is_observable_witness:
  "CHR ''='' \<in> set ''x = 5'' \<and>
   ''x'' = strip (before_first (CHR ''='') ''x = 5'') \<and>
   is_identifier ''x'' \<and>
   parse_expression (Parser (tokenize (strip (str_split ''x = 5'' (CHR ''='') ! 1)))) =
     (Returns (Number ''5''), \<lparr>tokens = [(NUMBER, ''5'')], pos = 1, error = None\<rparr>) \<and>
   evaluate (Number ''5'') Map.empty = Returns (Float (Finite 5)) \<and>
   process_expression ''x = 5'' Map.empty =
     (Assignment ''x'' (Float (Finite 5)), table_set Map.empty ''x'' (Float (Finite 5))) \<and>
   table_get (table_set Map.empty ''x'' (Float (Finite 5))) ''x'' = Float (Finite 5) \<and>
   evaluate (Identifier ''x'') (table_set Map.empty ''x'' (Float (Finite 5))) =
     Returns (Float (Finite 5)) \<and>
   process_expression ''x'' (table_set Map.empty ''x'' (Float (Finite 5))) =
     (Result (Float (Finite 5)), table_set Map.empty ''x'' (Float (Finite 5))) \<and>
   fst (process_expression ''x + 1'' (snd (process_expression ''x = 5'' Map.empty))) =
     Result (Float (Finite 6)) \<and>
   fst (process_expression ''x''
          (snd (process_expression ''x = 10'' (snd (process_expression ''x = 5'' Map.empty))))) =
     Result (Float (Finite 10))"
proof -
  have a: "CHR ''='' \<in> set ''x = 5''"
    by simp
  have k: "''x'' = strip (before_first (CHR ''='') ''x = 5'')"
    by (simp add: strip_def is_space_def before_first_def)
  have i: "is_identifier ''x''"
    by (simp add: is_identifier_def is_letter_def)
  have p: "parse_expression (Parser (tokenize (strip (str_split ''x = 5'' (CHR ''='') ! 1)))) =
     (Returns (Number ''5''), \<lparr>tokens = [(NUMBER, ''5'')], pos = 1, error = None\<rparr>)"
    by code_simp
  have er: "error \<lparr>tokens = [(NUMBER, ''5'')], pos = 1, error = None\<rparr> = None"
    by simp
  have v: "evaluate (Number ''5'') Map.empty = Returns (Float (Finite 5))"
    by code_simp
  note w = stored_value_is_observable [OF a k i p er v]
  note w1 = w [THEN conjunct1]
    and w2 = w [THEN conjunct2, THEN conjunct1]
    and w3 = w [THEN conjunct2, THEN conjunct2, THEN conjunct1]
    and w4 = w [THEN conjunct2, THEN conjunct2, THEN conjunct2]
  have l: "fst (process_expression ''x + 1'' (snd (process_expression ''x = 5'' Map.empty))) =
     Result (Float (Finite 6))"
    by code_simp
  have o: "fst (process_expression ''x''
          (snd (process_expression ''x = 10'' (snd (process_expression ''x = 5'' Map.empty))))) =
     Result (Float (Finite 10))"
    by code_simp
  show ?thesis
    by (intro conjI) (fact a k i p v w1 w2 w3 w4 l o)+
qed

subsection \<open>Unbound identifiers\<close>









end
